theory Spec2Isabelle
  imports Complex_Main
begin

section \<open>Data model (types.ts)\<close>

text \<open>
  The TypeScript interfaces of \<^verbatim>\<open>types.ts\<close> become records and the enum a datatype.
  A JavaScript \<^verbatim>\<open>number\<close> that holds a time or a percentage is modelled by an exact
  rational; the counters of \<^verbatim>\<open>Score\<close> start at 0 and only ever grow by 1, so they are
  naturals. The field \<^verbatim>\<open>id\<close> is called \<open>id_q\<close> because \<open>id\<close> is the identity of HOL.
\<close>

record QuizQuestion =
  id_q :: string
  timestamp :: rat
  question :: string
  options :: "string list"
  correctAnswerIndex :: int
  feedback :: string
  verbFocus :: "string option"

datatype AppState = SETUP | GENERATING | PLAYING | FINISHED

record Score =
  correct :: nat
  total :: nat

section \<open>State of the App component\<close>

text \<open>One field per \<^verbatim>\<open>useState\<close> cell of \<^verbatim>\<open>App\<close>, with the source's names.\<close>

record App =
  state :: AppState
  videoUrl :: string
  transcript :: string
  topic :: string
  isGenerating :: bool
  error :: "string option"
  questions :: "QuizQuestion list"
  currentVideoId :: string
  activeQuestion :: "QuizQuestion option"
  answeredQuestionIds :: "string set"
  shouldPause :: bool
  score :: Score
  playbackTime :: rat

section \<open>The scheduler: handleTimeUpdate\<close>

text \<open>
  The predicate handed to \<^verbatim>\<open>questions.find\<close>: the item lies strictly less than 1.5
  seconds from the current time and its id is not in the answered set. The difference
  of the two times is exact here, where the source rounds it to a double: the two
  agree whenever the subtraction is exact on doubles, as it is for the integer times
  of the evaluations below, and can differ within one rounding step of the bound 1.5.
\<close>

definition pending :: "string set \<Rightarrow> rat \<Rightarrow> QuizQuestion \<Rightarrow> bool" where
  "pending answered currentTime q \<longleftrightarrow>
     (let timeDiff = abs (currentTime - timestamp q)
      in timeDiff < 3 / 2 \<and> id_q q \<notin> answered)"

text \<open>
  \<^verbatim>\<open>handleTimeUpdate\<close> is a \<^verbatim>\<open>useCallback\<close> closure over \<^verbatim>\<open>questions\<close> and
  \<^verbatim>\<open>answeredQuestionIds\<close>: the two values it reads are those of the render that created
  it, so they are parameters here. The setters act on the state that is current when
  the callback runs.
\<close>

definition handleTimeUpdate ::
  "QuizQuestion list \<Rightarrow> string set \<Rightarrow> rat \<Rightarrow> App \<Rightarrow> App" where
  "handleTimeUpdate qs answered currentTime st =
     (let st1 = st\<lparr>playbackTime := currentTime\<rparr>
      in case find (pending answered currentTime) qs of
           Some pendingQuestion \<Rightarrow>
             st1\<lparr>shouldPause := True, activeQuestion := Some pendingQuestion\<rparr>
         | None \<Rightarrow> st1)"

text \<open>
  The sort of \<^verbatim>\<open>handleGenerate\<close>: \<^verbatim>\<open>qs.sort((a, b) => a.timestamp - b.timestamp)\<close>,
  a stable ascending sort on the timestamp.
\<close>

definition sortedQs :: "QuizQuestion list \<Rightarrow> QuizQuestion list" where
  "sortedQs qs = sort_key timestamp qs"

section \<open>Video identifier extraction: getYouTubeId\<close>

text \<open>
  The regular expression of the source is
  \<^verbatim>\<open>/^.*(youtu.be\/|v\/|u\/\w\/|embed\/|watch\?v=|&v=)([^#&?]*).*/\<close>.
  Each alternative of group 1 is a sequence of one-character atoms: a literal, the dot
  (any character but a line terminator) or \<^verbatim>\<open>\w\<close>. A \<open>char\<close> is one byte, so the
  line terminators in reach are line feed and carriage return.
\<close>

datatype atom = Lit char | Dot | Word

definition lineTerminator :: "char \<Rightarrow> bool" where
  "lineTerminator c \<longleftrightarrow> c = CHR 0x0A \<or> c = CHR 0x0D"

definition wordChar :: "char \<Rightarrow> bool" where
  "wordChar c \<longleftrightarrow>
     c \<in> set (''abcdefghijklmnopqrstuvwxyz'' @ ''ABCDEFGHIJKLMNOPQRSTUVWXYZ'' @ ''0123456789_'')"

fun matchAtom :: "atom \<Rightarrow> char \<Rightarrow> bool" where
  "matchAtom (Lit a) c \<longleftrightarrow> c = a"
| "matchAtom Dot c \<longleftrightarrow> \<not> lineTerminator c"
| "matchAtom Word c \<longleftrightarrow> wordChar c"

text \<open>Matching a sequence of atoms at the start of a string gives the rest of the string.\<close>

fun matchSeq :: "atom list \<Rightarrow> string \<Rightarrow> string option" where
  "matchSeq [] s = Some s"
| "matchSeq (a # as) [] = None"
| "matchSeq (a # as) (c # cs) = (if matchAtom a c then matchSeq as cs else None)"

text \<open>The six alternatives of group 1, in the order of the source.\<close>

definition alternatives :: "atom list list" where
  "alternatives =
     [map Lit ''youtu'' @ [Dot] @ map Lit ''be/'',
      map Lit ''v/'',
      [Lit CHR ''u'', Lit CHR ''/'', Word, Lit CHR ''/''],
      map Lit ''embed/'',
      map Lit ''watch?v='',
      map Lit ''&v='']"

text \<open>
  An alternation tries its branches from left to right. What follows group 1 in the
  pattern, \<^verbatim>\<open>([^#&?]*).*\<close>, matches any string, so the first branch that matches is
  never given up again.
\<close>

fun matchAlt :: "atom list list \<Rightarrow> string \<Rightarrow> string option" where
  "matchAlt [] s = None"
| "matchAlt (m # ms) s = (case matchSeq m s of Some r \<Rightarrow> Some r | None \<Rightarrow> matchAlt ms s)"

text \<open>Group 2, \<^verbatim>\<open>[^#&?]*\<close>, is greedy: the longest run free of the three characters.\<close>

definition group2 :: "string \<Rightarrow> string" where
  "group2 s = takeWhile (\<lambda>c. c \<notin> set ''#&?'') s"

definition groups :: "string \<Rightarrow> string option" where
  "groups s = map_option group2 (matchAlt alternatives s)"

text \<open>
  The leading \<^verbatim>\<open>^.*\<close> is greedy and backtracks: it takes a character when it can (the
  dot refuses a line terminator), tries the rest of the pattern after the longer
  prefix first and falls back to the shorter one. The result is the text of group 2 of
  the first match found in that order.
\<close>

fun matchFrom :: "string \<Rightarrow> string option" where
  "matchFrom [] = groups []"
| "matchFrom (c # cs) =
     (if lineTerminator c then groups (c # cs)
      else (case matchFrom cs of Some g \<Rightarrow> Some g | None \<Rightarrow> groups (c # cs)))"

definition getYouTubeId :: "string \<Rightarrow> string option" where
  "getYouTubeId url =
     (case matchFrom url of
        Some g \<Rightarrow> (if length g = 11 then Some g else None)
      | None \<Rightarrow> None)"

section \<open>Question generation: generateQuestions\<close>

text \<open>
  The provider and the JSON parser are outside the repository: they are fields of the
  environment, next to \<^verbatim>\<open>process.env.API_KEY\<close>. The prompt is a template string; the
  model keeps the three values interpolated into it. A thrown \<^verbatim>\<open>Error\<close> is its
  message. The parsed payload is cast to \<^verbatim>\<open>QuizQuestion[]\<close> unchecked; \<open>jsonParse\<close>
  gives \<open>Inl\<close> both for text that does not parse and for a payload that is no array,
  on which \<^verbatim>\<open>qs.sort\<close> throws inside the \<^verbatim>\<open>try\<close> block of \<^verbatim>\<open>handleGenerate\<close> with the
  same effect.

  The products in \<open>segments\<close> are exact. For the two durations that occur, 10 and 15,
  the products on doubles round to the same integers.
\<close>

record Prompt =
  p_topic :: string
  p_transcript :: string
  p_segments :: "int list"

datatype Reply = Rejected string | Response "string option"

record Env =
  apiKey :: "string option"
  generateContent :: "Prompt \<Rightarrow> Reply"
  jsonParse :: "string \<Rightarrow> string + QuizQuestion list"

definition segments :: "rat \<Rightarrow> int list" where
  "segments durationMinutes =
     map (\<lambda>p. \<lfloor>durationMinutes * 60 * p\<rfloor>) [1 / 10, 3 / 10, 5 / 10, 7 / 10, 9 / 10]"

text \<open>
  The third parameter has the default value 10: \<open>None\<close> is a call that leaves it out.
  The second component of the result lists the prompts sent to the provider. The
  \<^verbatim>\<open>catch\<close> block of the source logs the error and throws it again.
\<close>

definition generateQuestions ::
  "Env \<Rightarrow> string \<Rightarrow> string \<Rightarrow> rat option \<Rightarrow> (string + QuizQuestion list) \<times> Prompt list" where
  "generateQuestions env tpc trs duration =
     (let durationMinutes = (case duration of None \<Rightarrow> 10 | Some d \<Rightarrow> d)
      in if apiKey env = None \<or> apiKey env = Some [] then (Inl ''API Key is missing'', [])
         else
           (let prompt = \<lparr>p_topic = tpc, p_transcript = trs,
                          p_segments = segments durationMinutes\<rparr>
            in (case generateContent env prompt of
                  Rejected msg \<Rightarrow> Inl msg
                | Response None \<Rightarrow> Inl ''No response from Gemini''
                | Response (Some txt) \<Rightarrow>
                    (if txt = [] then Inl ''No response from Gemini'' else jsonParse env txt),
                [prompt])))"

section \<open>The generate action: handleGenerate\<close>

text \<open>
  The state after the whole asynchronous action has run, with the prompts sent on the
  way. The \<^verbatim>\<open>finally\<close> block clears \<^verbatim>\<open>isGenerating\<close> on both paths.
\<close>

definition handleGenerate :: "Env \<Rightarrow> App \<Rightarrow> App \<times> Prompt list" where
  "handleGenerate env st =
     (case getYouTubeId (videoUrl st) of
        None \<Rightarrow> (st\<lparr>error := Some ''Please enter a valid YouTube URL''\<rparr>, [])
      | Some i \<Rightarrow>
          (let st1 = st\<lparr>isGenerating := True, error := None, currentVideoId := i\<rparr>
           in (case generateQuestions env (topic st) (transcript st) (Some 15) of
                 (Inr qs, sent) \<Rightarrow>
                   (st1\<lparr>questions := sortedQs qs, state := PLAYING, isGenerating := False\<rparr>,
                    sent)
               | (Inl msg, sent) \<Rightarrow>
                   (st1\<lparr>error := Some (if msg = []
                                         then ''Failed to generate quiz. Please check your API key.''
                                         else msg),
                        isGenerating := False\<rparr>,
                    sent))))"

section \<open>Completion and restart\<close>

text \<open>
  \<^verbatim>\<open>handleQuestionComplete\<close>: the score and the answered set change only under the
  guard \<^verbatim>\<open>if (activeQuestion)\<close>; the two clearing setters always run. The trailing
  end-of-quiz test of the source has an empty body.
\<close>

definition handleQuestionComplete :: "bool \<Rightarrow> App \<Rightarrow> App" where
  "handleQuestionComplete isCorrect st =
     (let st1 = (case activeQuestion st of
                   Some aq \<Rightarrow>
                     st\<lparr>score := \<lparr>correct = correct (score st) + (if isCorrect then 1 else 0),
                                   total = total (score st) + 1\<rparr>,
                        answeredQuestionIds := insert (id_q aq) (answeredQuestionIds st)\<rparr>
                 | None \<Rightarrow> st)
      in st1\<lparr>activeQuestion := None, shouldPause := False\<rparr>)"

definition handleRestart :: "App \<Rightarrow> App" where
  "handleRestart st =
     st\<lparr>state := SETUP, score := \<lparr>correct = 0, total = 0\<rparr>, answeredQuestionIds := {},
        activeQuestion := None, shouldPause := False, questions := []\<rparr>"

section \<open>The progress bar\<close>

text \<open>
  A JavaScript division does not raise: \<^verbatim>\<open>0 / 0\<close> is \<^verbatim>\<open>NaN\<close> and \<^verbatim>\<open>n / 0\<close> is an
  infinity, whereas HOL's \<open>x / 0\<close> is \<open>0\<close>. The result type keeps the three
  non-finite values apart from the finite ones.
\<close>

datatype number = Num rat | PosInfinity | NegInfinity | NaN

fun jsDiv :: "number \<Rightarrow> number \<Rightarrow> number" where
  "jsDiv (Num a) (Num b) =
     (if b = 0 then (if a = 0 then NaN else if 0 < a then PosInfinity else NegInfinity)
      else Num (a / b))"
| "jsDiv _ _ = NaN"

fun jsMul :: "number \<Rightarrow> number \<Rightarrow> number" where
  "jsMul (Num a) (Num b) = Num (a * b)"
| "jsMul NaN _ = NaN"
| "jsMul _ NaN = NaN"
| "jsMul PosInfinity (Num b) = (if b = 0 then NaN else if 0 < b then PosInfinity else NegInfinity)"
| "jsMul NegInfinity (Num b) = (if b = 0 then NaN else if 0 < b then NegInfinity else PosInfinity)"
| "jsMul (Num a) PosInfinity = (if a = 0 then NaN else if 0 < a then PosInfinity else NegInfinity)"
| "jsMul (Num a) NegInfinity = (if a = 0 then NaN else if 0 < a then NegInfinity else PosInfinity)"
| "jsMul PosInfinity PosInfinity = PosInfinity"
| "jsMul NegInfinity NegInfinity = PosInfinity"
| "jsMul PosInfinity NegInfinity = NegInfinity"
| "jsMul NegInfinity PosInfinity = NegInfinity"

definition progressPercentage :: "App \<Rightarrow> number" where
  "progressPercentage st =
     (if length (questions st) = 0 then Num 0
      else jsMul (jsDiv (Num (of_nat (total (score st)))) (Num (of_nat (length (questions st)))))
                 (Num 100))"

section \<open>The quiz overlay\<close>

record QuizOverlay =
  selectedOption :: "int option"
  isSubmitted :: bool

definition handleSubmit :: "int \<Rightarrow> QuizOverlay \<Rightarrow> QuizOverlay" where
  "handleSubmit index ov =
     (if isSubmitted ov then ov else ov\<lparr>selectedOption := Some index, isSubmitted := True\<rparr>)"

text \<open>
  \<^verbatim>\<open>handleContinue\<close> calls \<^verbatim>\<open>onComplete\<close> only when an option is selected; the result
  is the argument of that call, or \<open>None\<close> when no call is made.
\<close>

definition handleContinue :: "QuizQuestion \<Rightarrow> QuizOverlay \<Rightarrow> bool option" where
  "handleContinue q ov =
     (case selectedOption ov of
        Some sel \<Rightarrow> Some (sel = correctAnswerIndex q)
      | None \<Rightarrow> None)"

text \<open>
  \<^verbatim>\<open>App\<close> renders the overlay only under \<^verbatim>\<open>shouldPause && activeQuestion\<close> and hands it
  \<^verbatim>\<open>handleQuestionComplete\<close> as \<^verbatim>\<open>onComplete\<close>; a click on Continue in that overlay:
\<close>

definition continueClick :: "QuizOverlay \<Rightarrow> App \<Rightarrow> App" where
  "continueClick ov st =
     (case activeQuestion st of
        Some q \<Rightarrow>
          (if shouldPause st then
             (case handleContinue q ov of
                Some isCorrect \<Rightarrow> handleQuestionComplete isCorrect st
              | None \<Rightarrow> st)
           else st)
      | None \<Rightarrow> st)"

section \<open>The player's pause effect (YouTubePlayer.tsx)\<close>

text \<open>
  The effect \<^verbatim>\<open>useEffect(..., [shouldPause, isReady, onPaused])\<close> runs after the first
  render and after every render in which one of the three dependencies differs from
  its value at the previous render. A callback is compared by identity, so the prop
  \<^verbatim>\<open>onPaused\<close> is the number of the function object. \<open>playerRef\<close> says that
  \<^verbatim>\<open>playerRef.current\<close> holds a player whose \<^verbatim>\<open>pauseVideo\<close> is a function.
\<close>

datatype Command = PauseVideo | OnPaused

record Player =
  isReady :: bool
  playerRef :: bool
  lastDeps :: "(bool \<times> bool \<times> nat) option"

definition pauseEffect :: "bool \<Rightarrow> Player \<Rightarrow> Command list" where
  "pauseEffect pause p =
     (if isReady p \<and> playerRef p then (if pause then [PauseVideo, OnPaused] else []) else [])"

definition renderPlayer :: "bool \<Rightarrow> nat \<Rightarrow> Player \<Rightarrow> Command list \<times> Player" where
  "renderPlayer pause onPaused p =
     (let deps = (pause, isReady p, onPaused)
      in (if lastDeps p = Some deps then [] else pauseEffect pause p,
          p\<lparr>lastDeps := Some deps\<rparr>))"

text \<open>A run of renders, each with its two props; the commands issued, in order.\<close>

fun renders :: "(bool \<times> nat) list \<Rightarrow> Player \<Rightarrow> Command list" where
  "renders [] p = []"
| "renders ((pause, onPaused) # rs) p =
     (case renderPlayer pause onPaused p of (cmds, p') \<Rightarrow> cmds @ renders rs p')"

text \<open>
  \<^verbatim>\<open>App\<close> passes \<^verbatim>\<open>onPaused={() => {}}\<close>: every render of \<^verbatim>\<open>App\<close> creates a new
  function object. Render number \<open>k\<close> passes the object number \<open>k\<close>.
\<close>

fun appProps :: "nat \<Rightarrow> bool list \<Rightarrow> (bool \<times> nat) list" where
  "appProps k [] = []"
| "appProps k (pause # ps) = (pause, k) # appProps (Suc k) ps"

text \<open>The activations in a run of values of \<^verbatim>\<open>shouldPause\<close>: the changes from false to true.\<close>

fun activations :: "bool \<Rightarrow> bool list \<Rightarrow> nat" where
  "activations prev [] = 0"
| "activations prev (pause # ps) =
     (if pause \<and> \<not> prev then 1 else 0) + activations pause ps"

section \<open>The tick that reaches App\<close>

text \<open>
  \<^verbatim>\<open>YouTubePlayer\<close> builds the widget in an effect whose dependency list is
  \<^verbatim>\<open>[videoId]\<close> (lines 34 to 69): it runs when the player is mounted and not again
  while the video stays the same. \<^verbatim>\<open>initializePlayer\<close> (lines 71 to 123) registers
  \<^verbatim>\<open>onReady\<close>, which starts the interval (lines 100 to 105) whose callback calls
  \<^verbatim>\<open>onTimeUpdate(currentTime)\<close>. The \<^verbatim>\<open>onTimeUpdate\<close> in that callback is the prop of the
  render in which the widget was built, for as long as the player is mounted: no ref
  or later effect hands the interval a newer one. That prop is the \<^verbatim>\<open>handleTimeUpdate\<close>
  of the render of \<^verbatim>\<open>App\<close> that showed the player first, a closure over the
  \<^verbatim>\<open>questions\<close> and \<^verbatim>\<open>answeredQuestionIds\<close> of that render. A session keeps these two
  captured values next to the state of \<^verbatim>\<open>App\<close>; the setters inside the callback act
  on the current state.
\<close>

record Session =
  app :: App
  capturedQuestions :: "QuizQuestion list"
  capturedAnswered :: "string set"

definition mountPlayer :: "App \<Rightarrow> Session" where
  "mountPlayer st =
     \<lparr>app = st, capturedQuestions = questions st, capturedAnswered = answeredQuestionIds st\<rparr>"

definition intervalTick :: "rat \<Rightarrow> Session \<Rightarrow> Session" where
  "intervalTick currentTime s =
     s\<lparr>app := handleTimeUpdate (capturedQuestions s) (capturedAnswered s) currentTime (app s)\<rparr>"

definition overlayContinue :: "QuizOverlay \<Rightarrow> Session \<Rightarrow> Session" where
  "overlayContinue ov s = s\<lparr>app := continueClick ov (app s)\<rparr>"

fun intervalTicks :: "rat list \<Rightarrow> Session \<Rightarrow> Session" where
  "intervalTicks [] s = s"
| "intervalTicks (t # ts) s = intervalTicks ts (intervalTick t s)"

section \<open>The shapes the specification lists\<close>

text \<open>
  The specification speaks of five URL shapes, \<^verbatim>\<open>watch?v=\<close>, \<^verbatim>\<open>youtu.be/\<close>, \<^verbatim>\<open>embed/\<close>,
  \<^verbatim>\<open>v/\<close> and \<^verbatim>\<open>u/\w/\<close>, followed by an 11-character token. \<open>claimedTokens\<close>
  follows these words, not the source: it lists, for every position of the string at
  which one of the five shapes stands, the run of characters after the shape up to the
  next \<^verbatim>\<open>#\<close>, \<^verbatim>\<open>&\<close> or \<^verbatim>\<open>?\<close> (or the end), when that run has 11 characters.
\<close>

definition claimedShapes :: "atom list list" where
  "claimedShapes =
     [map Lit ''watch?v='', map Lit ''youtu.be/'', map Lit ''embed/'', map Lit ''v/'',
      [Lit CHR ''u'', Lit CHR ''/'', Word, Lit CHR ''/'']]"

definition suffixesOf :: "'a list \<Rightarrow> 'a list list" where
  "suffixesOf xs = map (\<lambda>k. drop k xs) [0..<Suc (length xs)]"

definition tokenAfter :: "atom list \<Rightarrow> string \<Rightarrow> string list" where
  "tokenAfter m s =
     (case matchSeq m s of
        Some r \<Rightarrow> (if length (group2 r) = 11 then [group2 r] else [])
      | None \<Rightarrow> [])"

definition claimedTokens :: "string \<Rightarrow> string list" where
  "claimedTokens url =
     concat (map (\<lambda>s. concat (map (\<lambda>m. tokenAfter m s) claimedShapes)) (suffixesOf url))"

section \<open>Sample values\<close>

text \<open>Sample items for the concrete evaluations below.\<close>

definition mkQ :: "string \<Rightarrow> rat \<Rightarrow> QuizQuestion" where
  "mkQ i t = \<lparr>id_q = i, timestamp = t, question = ''What does Luke do?'',
     options = [''builds'', ''cooks'', ''walks''], correctAnswerIndex = 2,
     feedback = ''He walks.'', verbFocus = Some ''walk''\<rparr>"

definition initialApp :: App where
  "initialApp = \<lparr>state = SETUP,
     videoUrl = ''https://www.youtube.com/watch?v=sSsTR8qqDl4'',
     transcript = '''', topic = ''Outdoor Boys Camping & Survival'',
     isGenerating = False, error = None, questions = [], currentVideoId = '''',
     activeQuestion = None, answeredQuestionIds = {}, shouldPause = False,
     score = \<lparr>correct = 0, total = 0\<rparr>, playbackTime = 0\<rparr>"

definition sampleEnv :: Env where
  "sampleEnv = \<lparr>apiKey = Some ''key'', generateContent = (\<lambda>_. Response (Some ''[]'')),
     jsonParse = (\<lambda>_. Inr [])\<rparr>"

definition playingApp :: "QuizQuestion list \<Rightarrow> App" where
  "playingApp qs = initialApp\<lparr>state := PLAYING, questions := qs, currentVideoId := ''sSsTR8qqDl4''\<rparr>"

definition emptyOverlay :: QuizOverlay where
  "emptyOverlay = \<lparr>selectedOption = None, isSubmitted = False\<rparr>"

definition readyPlayer :: Player where
  "readyPlayer = \<lparr>isReady = True, playerRef = True, lastDeps = Some (False, True, 0)\<rparr>"

text \<open>
  The session after the player was mounted on the given questions, a tick at 10 came
  in, and the learner submitted option 2 in the overlay and continued.
\<close>

definition afterAnswer :: "QuizQuestion list \<Rightarrow> Session" where
  "afterAnswer qs =
     overlayContinue (handleSubmit 2 emptyOverlay)
       (intervalTick 10 (mountPlayer (playingApp qs)))"

section \<open>Scheduler lemmas\<close>

lemma find_first_index:
  "find P xs = Some x \<Longrightarrow>
     \<exists>i < length xs. xs ! i = x \<and> P x \<and> (\<forall>j < i. \<not> P (xs ! j))"
  by (auto simp: find_Some_iff)

lemma sorted_key_nth_mono:
  "sorted (map f xs) \<Longrightarrow> i \<le> j \<Longrightarrow> j < length xs \<Longrightarrow> f (xs ! i) \<le> f (xs ! j)"
  using sorted_nth_mono [of "map f xs" i j] by simp

lemma sortedQs_sorted: "sorted (map timestamp (sortedQs raw))"
  by (simp add: sortedQs_def)

lemma sortedQs_set: "set (sortedQs raw) = set raw"
  by (simp add: sortedQs_def)

text \<open>
  The callback itself, for the question list as sorted by \<^verbatim>\<open>handleGenerate\<close> and the
  answered set it reads: if some item is less than 1.5 seconds away from
  \<open>currentTime\<close> and not in that set, the first such item of the list becomes the
  active question and the pause is requested in the same update; no item before it in
  the list qualifies and no qualifying item has a smaller timestamp. If no item
  qualifies, only the playback time changes.
\<close>

lemma handleTimeUpdate_first_pending:
  assumes "qs = sortedQs raw"
  shows "if \<exists>q \<in> set raw. pending answered currentTime q
         then \<exists>i < length qs.
                pending answered currentTime (qs ! i)
              \<and> abs (currentTime - timestamp (qs ! i)) < 3 / 2
              \<and> id_q (qs ! i) \<notin> answered
              \<and> (\<forall>j < i. \<not> pending answered currentTime (qs ! j))
              \<and> (\<forall>q \<in> set raw. pending answered currentTime q \<longrightarrow> timestamp (qs ! i) \<le> timestamp q)
              \<and> handleTimeUpdate qs answered currentTime st =
                  st\<lparr>playbackTime := currentTime, shouldPause := True,
                     activeQuestion := Some (qs ! i)\<rparr>
         else handleTimeUpdate qs answered currentTime st = st\<lparr>playbackTime := currentTime\<rparr>
              \<and> activeQuestion (handleTimeUpdate qs answered currentTime st) = activeQuestion st
              \<and> shouldPause (handleTimeUpdate qs answered currentTime st) = shouldPause st"
proof (cases "\<exists>q \<in> set raw. pending answered currentTime q")
  case True
  then have "\<exists>q \<in> set qs. pending answered currentTime q"
    using assms by (simp add: sortedQs_set)
  then obtain x where fx: "find (pending answered currentTime) qs = Some x"
    by (cases "find (pending answered currentTime) qs") (auto simp: find_None_iff)
  from find_first_index [OF fx] obtain i where
    i: "i < length qs" "qs ! i = x" "pending answered currentTime x"
       "\<forall>j < i. \<not> pending answered currentTime (qs ! j)"
    by blast
  have srt: "sorted (map timestamp qs)"
    using assms by (simp add: sortedQs_sorted)
  have least: "timestamp (qs ! i) \<le> timestamp q"
    if q: "q \<in> set raw" "pending answered currentTime q" for q
  proof -
    from q(1) assms have "q \<in> set qs" by (simp add: sortedQs_set)
    then obtain k where k: "k < length qs" "qs ! k = q"
      by (auto simp: in_set_conv_nth)
    with i(4) q(2) have "i \<le> k" by (metis not_le_imp_less)
    with sorted_key_nth_mono [OF srt _ k(1)] k(2) show ?thesis by blast
  qed
  have upd: "handleTimeUpdate qs answered currentTime st =
      st\<lparr>playbackTime := currentTime, shouldPause := True, activeQuestion := Some (qs ! i)\<rparr>"
    using fx i(2) by (simp add: handleTimeUpdate_def)
  have win: "abs (currentTime - timestamp (qs ! i)) < 3 / 2" "id_q (qs ! i) \<notin> answered"
    using i(2,3) by (simp_all add: pending_def)
  from True i least upd win show ?thesis by auto
next
  case False
  then have "find (pending answered currentTime) qs = None"
    using assms by (simp add: find_None_iff sortedQs_set)
  then have "handleTimeUpdate qs answered currentTime st = st\<lparr>playbackTime := currentTime\<rparr>"
    by (simp add: handleTimeUpdate_def)
  with False show ?thesis by simp
qed

text \<open>
  Claim C1 says that every tick during PLAYING selects the first item within 1.5
  seconds whose id is not in the answered set, and changes nothing when there is no
  such item. The tick the player delivers reads the answered set captured when the
  player was mounted, not the one of the session. With items \<open>a\<close> at 10 and \<open>b\<close> at
  11, after \<open>a\<close> was shown at the tick at 10 and answered, the answered set is
  \<open>{a}\<close> and the first unanswered item in the window of the next tick at 10 is
  \<open>b\<close>, which the callback of the current render would select; the tick selects
  \<open>a\<close>. With the single item \<open>a\<close>, no unanswered item is in the window of that
  tick, and the tick sets the active question and the pause request all the same.
\<close>

theorem stale_tick_ignores_answered_set:
  "sortedQs [mkQ ''a'' 10, mkQ ''b'' 11] = [mkQ ''a'' 10, mkQ ''b'' 11]
   \<and> answeredQuestionIds (app (afterAnswer [mkQ ''a'' 10, mkQ ''b'' 11])) = {''a''}
   \<and> activeQuestion (app (afterAnswer [mkQ ''a'' 10, mkQ ''b'' 11])) = None
   \<and> find (pending {''a''} 10) [mkQ ''a'' 10, mkQ ''b'' 11] = Some (mkQ ''b'' 11)
   \<and> activeQuestion (handleTimeUpdate [mkQ ''a'' 10, mkQ ''b'' 11] {''a''} 10
        (app (afterAnswer [mkQ ''a'' 10, mkQ ''b'' 11]))) = Some (mkQ ''b'' 11)
   \<and> activeQuestion (app (intervalTick 10 (afterAnswer [mkQ ''a'' 10, mkQ ''b'' 11]))) =
        Some (mkQ ''a'' 10)
   \<and> answeredQuestionIds (app (afterAnswer [mkQ ''a'' 10])) = {''a''}
   \<and> shouldPause (app (afterAnswer [mkQ ''a'' 10])) = False
   \<and> find (pending {''a''} 10) [mkQ ''a'' 10] = None
   \<and> activeQuestion (app (intervalTick 10 (afterAnswer [mkQ ''a'' 10]))) = Some (mkQ ''a'' 10)
   \<and> shouldPause (app (intervalTick 10 (afterAnswer [mkQ ''a'' 10]))) = True"
  by (simp add: afterAnswer_def intervalTick_def overlayContinue_def mountPlayer_def
        playingApp_def handleTimeUpdate_def pending_def mkQ_def initialApp_def continueClick_def
        handleContinue_def handleSubmit_def emptyOverlay_def handleQuestionComplete_def
        sortedQs_def)

section \<open>Restart\<close>

text \<open>
  Claim C8. After \<^verbatim>\<open>handleRestart\<close>, from any state (so also from PLAYING), the session
  state is SETUP, the score is (0, 0), the answered set is empty, no question is
  active, the pause request is cleared and the question list is empty.
\<close>

theorem handleRestart_resets:
  "state (handleRestart st) = SETUP
   \<and> score (handleRestart st) = \<lparr>correct = 0, total = 0\<rparr>
   \<and> answeredQuestionIds (handleRestart st) = {}
   \<and> activeQuestion (handleRestart st) = None
   \<and> shouldPause (handleRestart st) = False
   \<and> questions (handleRestart st) = []"
  by (simp add: handleRestart_def)

section \<open>Progress percentage\<close>

text \<open>
  Claim C10. The progress percentage is always a finite number, never \<^verbatim>\<open>NaN\<close> or an
  infinity: it is 0 when the question list is empty and otherwise the total of the
  score divided by the number of questions, times 100.
\<close>

theorem progressPercentage_finite:
  "\<exists>r. progressPercentage st = Num r
     \<and> (questions st = [] \<longrightarrow> r = 0)
     \<and> (questions st \<noteq> [] \<longrightarrow>
          r = of_nat (total (score st)) / of_nat (length (questions st)) * 100)"
  by (simp add: progressPercentage_def)

theorem progressPercentage_finite_witness:
  "progressPercentage initialApp = Num 0
   \<and> progressPercentage (initialApp\<lparr>questions := [mkQ ''a'' 10, mkQ ''b'' 20],
        score := \<lparr>correct = 0, total = 1\<rparr>\<rparr>) = Num 50"
proof -
  have a: "progressPercentage initialApp = Num 0"
    using progressPercentage_finite [of initialApp] by (auto simp: initialApp_def)
  have b: "progressPercentage (initialApp\<lparr>questions := [mkQ ''a'' 10, mkQ ''b'' 20],
        score := \<lparr>correct = 0, total = 1\<rparr>\<rparr>) = Num 50"
    using progressPercentage_finite [of "initialApp\<lparr>questions := [mkQ ''a'' 10, mkQ ''b'' 20],
        score := \<lparr>correct = 0, total = 1\<rparr>\<rparr>"] by auto
  from a b show ?thesis by simp
qed

section \<open>Completing a question\<close>

text \<open>
  Claim C6. \<^verbatim>\<open>handleQuestionComplete\<close> is called from the overlay only, and the overlay
  is rendered only while the pause is requested and a question is active: without
  them a click on Continue reaches nothing. Every call, made with a question active,
  adds 1 to the total of the score, adds 1 to the correct count exactly when
  \<open>isCorrect\<close> holds, adds the id of the active item to the answered set and clears
  the active question and the pause request. In the overlay of the active item,
  submitting the option whose index is \<open>correctAnswerIndex\<close> and then continuing calls
  the handler with \<open>True\<close>, and the score becomes one more correct and one more in
  total.
\<close>

theorem handleQuestionComplete_active:
  "(activeQuestion st = Some aq \<longrightarrow>
       total (score (handleQuestionComplete isCorrect st)) = total (score st) + 1
     \<and> correct (score (handleQuestionComplete isCorrect st)) =
         (if isCorrect then correct (score st) + 1 else correct (score st))
     \<and> answeredQuestionIds (handleQuestionComplete isCorrect st) =
         insert (id_q aq) (answeredQuestionIds st)
     \<and> activeQuestion (handleQuestionComplete isCorrect st) = None
     \<and> shouldPause (handleQuestionComplete isCorrect st) = False
     \<and> (shouldPause st \<and> \<not> isSubmitted ov \<longrightarrow>
          handleContinue aq (handleSubmit (correctAnswerIndex aq) ov) = Some True
        \<and> continueClick (handleSubmit (correctAnswerIndex aq) ov) st =
            handleQuestionComplete True st
        \<and> score (continueClick (handleSubmit (correctAnswerIndex aq) ov) st) =
            \<lparr>correct = correct (score st) + 1, total = total (score st) + 1\<rparr>))
   \<and> (activeQuestion st = None \<or> \<not> shouldPause st \<longrightarrow> continueClick ov st = st)"
  by (cases "activeQuestion st")
     (simp_all add: handleQuestionComplete_def handleContinue_def handleSubmit_def
        continueClick_def)

theorem handleQuestionComplete_active_witness:
  "score (handleQuestionComplete True
       (initialApp\<lparr>activeQuestion := Some (mkQ ''a'' 10), shouldPause := True\<rparr>)) =
     \<lparr>correct = 1, total = 1\<rparr>
   \<and> score (handleQuestionComplete False
       (initialApp\<lparr>activeQuestion := Some (mkQ ''a'' 10), shouldPause := True\<rparr>)) =
     \<lparr>correct = 0, total = 1\<rparr>
   \<and> answeredQuestionIds (handleQuestionComplete True
       (initialApp\<lparr>activeQuestion := Some (mkQ ''a'' 10), shouldPause := True\<rparr>)) = {''a''}
   \<and> activeQuestion (handleQuestionComplete True
       (initialApp\<lparr>activeQuestion := Some (mkQ ''a'' 10), shouldPause := True\<rparr>)) = None
   \<and> score (continueClick (handleSubmit 2 emptyOverlay)
       (initialApp\<lparr>activeQuestion := Some (mkQ ''a'' 10), shouldPause := True\<rparr>)) =
     \<lparr>correct = 1, total = 1\<rparr>
   \<and> continueClick (handleSubmit 2 emptyOverlay) initialApp = initialApp"
proof -
  let ?st = "initialApp\<lparr>activeQuestion := Some (mkQ ''a'' 10), shouldPause := True\<rparr>"
  have h: "activeQuestion ?st = Some (mkQ ''a'' 10)" "shouldPause ?st"
    "\<not> isSubmitted emptyOverlay" "correctAnswerIndex (mkQ ''a'' 10) = 2"
    "id_q (mkQ ''a'' 10) = ''a''" "score ?st = \<lparr>correct = 0, total = 0\<rparr>"
    "answeredQuestionIds ?st = {}"
    by (simp_all add: initialApp_def mkQ_def emptyOverlay_def)
  note r = handleQuestionComplete_active [where st = ?st and aq = "mkQ ''a'' 10"
      and ov = emptyOverlay]
  have t: "score (handleQuestionComplete True ?st) = \<lparr>correct = 1, total = 1\<rparr>"
    "answeredQuestionIds (handleQuestionComplete True ?st) = {''a''}"
    "activeQuestion (handleQuestionComplete True ?st) = None"
    "score (continueClick (handleSubmit 2 emptyOverlay) ?st) = \<lparr>correct = 1, total = 1\<rparr>"
    using r [where isCorrect = True] h by simp_all
  have f: "score (handleQuestionComplete False ?st) = \<lparr>correct = 0, total = 1\<rparr>"
    using r [where isCorrect = False] h by simp
  have n: "continueClick (handleSubmit 2 emptyOverlay) initialApp = initialApp"
    using handleQuestionComplete_active [where st = initialApp
        and ov = "handleSubmit 2 emptyOverlay"]
    by (simp add: initialApp_def)
  from t f n show ?thesis by simp
qed

section \<open>Failed generation\<close>

text \<open>
  Claim C7. Without an API key (undefined or empty) \<^verbatim>\<open>generateQuestions\<close> fails with
  the message "API Key is missing" and no prompt has been sent to the provider. For a
  valid URL, whenever \<^verbatim>\<open>generateQuestions\<close> fails with a message, \<^verbatim>\<open>handleGenerate\<close>
  leaves the session state as it was (SETUP stays SETUP), leaves the question list as
  it was and stores the message in \<open>error\<close> (the fallback text when the message is
  empty).
\<close>

theorem generation_failure_keeps_setup:
  "((apiKey env = None \<or> apiKey env = Some []) \<longrightarrow>
      generateQuestions env tpc trs duration = (Inl ''API Key is missing'', []))
   \<and> (getYouTubeId (videoUrl st) \<noteq> None \<and>
       fst (generateQuestions env (topic st) (transcript st) (Some 15)) = Inl msg \<longrightarrow>
         state (fst (handleGenerate env st)) = state st
       \<and> (state st = SETUP \<longrightarrow> state (fst (handleGenerate env st)) = SETUP)
       \<and> questions (fst (handleGenerate env st)) = questions st
       \<and> error (fst (handleGenerate env st)) =
           Some (if msg = [] then ''Failed to generate quiz. Please check your API key.''
                 else msg)
       \<and> snd (handleGenerate env st) =
           snd (generateQuestions env (topic st) (transcript st) (Some 15)))"
  by (auto simp: generateQuestions_def handleGenerate_def Let_def split: prod.splits sum.splits)

lemma initial_url_id: "getYouTubeId (videoUrl initialApp) = Some ''sSsTR8qqDl4''"
  unfolding initialApp_def by code_simp

theorem generation_failure_keeps_setup_witness:
  "generateQuestions (sampleEnv\<lparr>apiKey := None\<rparr>) ''camping'' [] (Some 15) =
     (Inl ''API Key is missing'', [])
   \<and> state (fst (handleGenerate (sampleEnv\<lparr>apiKey := None\<rparr>) initialApp)) = SETUP
   \<and> questions (fst (handleGenerate (sampleEnv\<lparr>apiKey := None\<rparr>) initialApp)) = []
   \<and> error (fst (handleGenerate (sampleEnv\<lparr>apiKey := None\<rparr>) initialApp)) =
       Some ''API Key is missing''
   \<and> snd (handleGenerate (sampleEnv\<lparr>apiKey := None\<rparr>) initialApp) = []
   \<and> error (fst (handleGenerate (sampleEnv\<lparr>generateContent := (\<lambda>_. Rejected ''quota'')\<rparr>)
         initialApp)) = Some ''quota''
   \<and> state (fst (handleGenerate (sampleEnv\<lparr>generateContent := (\<lambda>_. Rejected ''quota'')\<rparr>)
         initialApp)) = SETUP"
proof -
  let ?e1 = "sampleEnv\<lparr>apiKey := None\<rparr>"
  let ?e2 = "sampleEnv\<lparr>generateContent := (\<lambda>_. Rejected ''quota'')\<rparr>"
  have u: "getYouTubeId (videoUrl initialApp) \<noteq> None"
    by (simp add: initial_url_id)
  have k: "apiKey ?e1 = None \<or> apiKey ?e1 = Some []"
    by simp
  have s: "state initialApp = SETUP" "questions initialApp = []"
    by (simp_all add: initialApp_def)
  have g1: "generateQuestions ?e1 tpc trs duration = (Inl ''API Key is missing'', [])"
    for tpc trs duration
    using generation_failure_keeps_setup [where env = ?e1 and tpc = tpc and trs = trs
        and duration = duration] k by blast
  have f1: "fst (generateQuestions ?e1 (topic initialApp) (transcript initialApp) (Some 15)) =
      Inl ''API Key is missing''"
    by (simp add: g1)
  have f2: "fst (generateQuestions ?e2 (topic initialApp) (transcript initialApp) (Some 15)) =
      Inl ''quota''"
    by (simp add: generateQuestions_def sampleEnv_def)
  note r1 = generation_failure_keeps_setup [where env = ?e1 and st = initialApp
      and msg = "''API Key is missing''"]
  note r2 = generation_failure_keeps_setup [where env = ?e2 and st = initialApp
      and msg = "''quota''"]
  from r1 u f1 s g1 have a:
    "state (fst (handleGenerate ?e1 initialApp)) = SETUP"
    "questions (fst (handleGenerate ?e1 initialApp)) = []"
    "error (fst (handleGenerate ?e1 initialApp)) = Some ''API Key is missing''"
    "snd (handleGenerate ?e1 initialApp) = []"
    by simp_all
  from r2 u f2 s have b:
    "error (fst (handleGenerate ?e2 initialApp)) = Some ''quota''"
    "state (fst (handleGenerate ?e2 initialApp)) = SETUP"
    by simp_all
  from a b g1 show ?thesis by simp
qed

section \<open>Default duration and candidate timestamps\<close>

lemma segments_10: "segments 10 = [60, 180, 300, 420, 540]"
  by (simp add: segments_def)

lemma segments_15: "segments 15 = [90, 270, 450, 630, 810]"
  by (simp add: segments_def)

text \<open>
  Claim C9, as the claim states it, fails: a call that leaves the duration out does
  not send the candidate timestamps of a 15 minute video.
\<close>

theorem generateQuestions_default_counterexample:
  "map p_segments (snd (generateQuestions sampleEnv ''camping'' [] None)) \<noteq> [segments 15]"
  by (simp add: generateQuestions_def sampleEnv_def segments_10 segments_15)

text \<open>
  Claim C9, amended. When no duration is supplied to \<^verbatim>\<open>generateQuestions\<close> the duration
  is 10 minutes and the candidate timestamps sent are 60, 180, 300, 420 and 540, which
  is 10%, 30%, 50%, 70% and 90% of 600 seconds. \<^verbatim>\<open>handleGenerate\<close>, the only caller,
  supplies 15 minutes, and the timestamps sent are 90, 270, 450, 630 and 810.
\<close>

theorem generateQuestions_default_duration:
  "apiKey env \<noteq> None \<and> apiKey env \<noteq> Some [] \<longrightarrow>
     map p_segments (snd (generateQuestions env tpc trs None)) = [[60, 180, 300, 420, 540]]
   \<and> map p_segments (snd (generateQuestions env tpc trs (Some 15))) =
       [[90, 270, 450, 630, 810]]
   \<and> (getYouTubeId (videoUrl st) \<noteq> None \<longrightarrow>
        map p_segments (snd (handleGenerate env st)) = [[90, 270, 450, 630, 810]])"
  by (auto simp: generateQuestions_def handleGenerate_def Let_def segments_10 segments_15
       split: prod.splits sum.splits)

theorem generateQuestions_default_duration_witness:
  "map p_segments (snd (generateQuestions sampleEnv ''camping'' [] None)) =
     [[60, 180, 300, 420, 540]]
   \<and> map p_segments (snd (generateQuestions sampleEnv ''camping'' [] (Some 15))) =
     [[90, 270, 450, 630, 810]]
   \<and> map p_segments (snd (handleGenerate sampleEnv initialApp)) = [[90, 270, 450, 630, 810]]"
proof -
  have k: "apiKey sampleEnv \<noteq> None \<and> apiKey sampleEnv \<noteq> Some []"
    by (simp add: sampleEnv_def)
  have u: "getYouTubeId (videoUrl initialApp) \<noteq> None"
    by (simp add: initial_url_id)
  from generateQuestions_default_duration [where env = sampleEnv and tpc = "''camping''"
      and trs = "[]" and st = initialApp] k u
  show ?thesis by simp
qed

section \<open>Ticks while a question is active\<close>

text \<open>
  Claim C2, as the claim states it, fails: a tick that arrives while a question is
  active and not completed runs the decision again and can replace the active
  question.
\<close>

theorem intervalTick_replaces_active:
  "activeQuestion (app (intervalTick 10 (mountPlayer (playingApp [mkQ ''a'' 10, mkQ ''b'' 20])))) =
     Some (mkQ ''a'' 10)
   \<and> activeQuestion (app (intervalTick 20 (intervalTick 10
        (mountPlayer (playingApp [mkQ ''a'' 10, mkQ ''b'' 20]))))) = Some (mkQ ''b'' 20)"
  by (simp add: intervalTick_def mountPlayer_def playingApp_def handleTimeUpdate_def
        pending_def mkQ_def initialApp_def)

lemma handleTimeUpdate_some:
  "find (pending answered t) qs = Some q \<Longrightarrow>
     handleTimeUpdate qs answered t st =
       st\<lparr>playbackTime := t, shouldPause := True, activeQuestion := Some q\<rparr>"
  by (simp add: handleTimeUpdate_def)

lemma handleTimeUpdate_none:
  "find (pending answered t) qs = None \<Longrightarrow>
     handleTimeUpdate qs answered t st = st\<lparr>playbackTime := t\<rparr>"
  by (simp add: handleTimeUpdate_def)

text \<open>
  Claim C2, amended. Every tick runs the decision again, whether or not a question
  is active. A tick with a pending item makes the first pending item the active
  question and requests the pause, whatever was active before; a tick without a
  pending item leaves the active question and the pause request as they were; a
  second tick at the same time changes nothing. For the ticks 0, 5, 10, 10.4 and a
  single unanswered item at timestamp 10, no question is active after the ticks at 0
  and 5, the item is active after the tick at 10, and the tick at 10.4 changes only
  the playback time: the active question becomes set once, on the tick at 10.
\<close>

theorem handleTimeUpdate_reevaluates:
  "((\<exists>q \<in> set qs. pending answered t q) \<longrightarrow>
      activeQuestion (handleTimeUpdate qs answered t st) = find (pending answered t) qs
    \<and> activeQuestion (handleTimeUpdate qs answered t st) \<noteq> None
    \<and> shouldPause (handleTimeUpdate qs answered t st))
   \<and> (\<not> (\<exists>q \<in> set qs. pending answered t q) \<longrightarrow>
      activeQuestion (handleTimeUpdate qs answered t st) = activeQuestion st
    \<and> shouldPause (handleTimeUpdate qs answered t st) = shouldPause st)
   \<and> handleTimeUpdate qs answered t (handleTimeUpdate qs answered t st) =
       handleTimeUpdate qs answered t st
   \<and> (questions st = [q] \<and> timestamp q = 10 \<and> id_q q \<notin> answeredQuestionIds st
       \<and> activeQuestion st = None \<longrightarrow>
        activeQuestion (app (intervalTicks [0] (mountPlayer st))) = None
      \<and> activeQuestion (app (intervalTicks [0, 5] (mountPlayer st))) = None
      \<and> activeQuestion (app (intervalTicks [0, 5, 10] (mountPlayer st))) = Some q
      \<and> app (intervalTicks [0, 5, 10, 52 / 5] (mountPlayer st)) =
          (app (intervalTicks [0, 5, 10] (mountPlayer st)))\<lparr>playbackTime := 52 / 5\<rparr>)"
proof -
  have a: "activeQuestion (handleTimeUpdate qs answered t st) = find (pending answered t) qs
      \<and> activeQuestion (handleTimeUpdate qs answered t st) \<noteq> None
      \<and> shouldPause (handleTimeUpdate qs answered t st)"
    if "\<exists>q \<in> set qs. pending answered t q"
  proof -
    from that obtain x where "find (pending answered t) qs = Some x"
      by (cases "find (pending answered t) qs") (auto simp: find_None_iff)
    then show ?thesis by (simp add: handleTimeUpdate_some)
  qed
  have b: "activeQuestion (handleTimeUpdate qs answered t st) = activeQuestion st
      \<and> shouldPause (handleTimeUpdate qs answered t st) = shouldPause st"
    if "\<not> (\<exists>q \<in> set qs. pending answered t q)"
  proof -
    from that have "find (pending answered t) qs = None"
      by (simp add: find_None_iff)
    then show ?thesis by (simp add: handleTimeUpdate_none)
  qed
  have c: "handleTimeUpdate qs answered t (handleTimeUpdate qs answered t st) =
       handleTimeUpdate qs answered t st"
    by (cases "find (pending answered t) qs")
       (simp_all add: handleTimeUpdate_some handleTimeUpdate_none)
  have d: "activeQuestion (app (intervalTicks [0] (mountPlayer st))) = None
      \<and> activeQuestion (app (intervalTicks [0, 5] (mountPlayer st))) = None
      \<and> activeQuestion (app (intervalTicks [0, 5, 10] (mountPlayer st))) = Some q
      \<and> app (intervalTicks [0, 5, 10, 52 / 5] (mountPlayer st)) =
          (app (intervalTicks [0, 5, 10] (mountPlayer st)))\<lparr>playbackTime := 52 / 5\<rparr>"
    if h: "questions st = [q]" "timestamp q = 10" "id_q q \<notin> answeredQuestionIds st"
       "activeQuestion st = None"
    using h by (simp add: intervalTick_def mountPlayer_def handleTimeUpdate_def pending_def)
  from a b c d show ?thesis by blast
qed

theorem handleTimeUpdate_reevaluates_witness:
  "activeQuestion (app (intervalTicks [0, 5] (mountPlayer (playingApp [mkQ ''a'' 10])))) = None
   \<and> activeQuestion (app (intervalTicks [0, 5, 10] (mountPlayer (playingApp [mkQ ''a'' 10])))) =
       Some (mkQ ''a'' 10)
   \<and> activeQuestion (app (intervalTicks [0, 5, 10, 52 / 5]
        (mountPlayer (playingApp [mkQ ''a'' 10])))) = Some (mkQ ''a'' 10)
   \<and> activeQuestion (handleTimeUpdate [mkQ ''a'' 10] {} 5
        (playingApp [mkQ ''a'' 10])) = None
   \<and> shouldPause (handleTimeUpdate [mkQ ''a'' 10] {} 10 (playingApp [mkQ ''a'' 10]))"
proof -
  let ?st = "playingApp [mkQ ''a'' 10]"
  have h: "questions ?st = [mkQ ''a'' 10] \<and> timestamp (mkQ ''a'' 10) = 10
      \<and> id_q (mkQ ''a'' 10) \<notin> answeredQuestionIds ?st \<and> activeQuestion ?st = None"
    by (simp add: playingApp_def initialApp_def mkQ_def)
  have p10: "\<exists>q \<in> set [mkQ ''a'' 10]. pending {} 10 q"
    by (simp add: pending_def mkQ_def)
  have p5: "\<not> (\<exists>q \<in> set [mkQ ''a'' 10]. pending {} 5 q)"
    by (simp add: pending_def mkQ_def)
  note r = handleTimeUpdate_reevaluates [where st = ?st and q = "mkQ ''a'' 10"
      and qs = "[mkQ ''a'' 10]" and answered = "{}"]
  from r [where t = 5] h p5 have a:
    "activeQuestion (app (intervalTicks [0, 5] (mountPlayer ?st))) = None"
    "activeQuestion (app (intervalTicks [0, 5, 10] (mountPlayer ?st))) = Some (mkQ ''a'' 10)"
    "activeQuestion (app (intervalTicks [0, 5, 10, 52 / 5] (mountPlayer ?st))) =
       Some (mkQ ''a'' 10)"
    "activeQuestion (handleTimeUpdate [mkQ ''a'' 10] {} 5 ?st) = None"
    by (simp_all add: h)
  from r [where t = 10] p10 have b:
    "shouldPause (handleTimeUpdate [mkQ ''a'' 10] {} 10 ?st)"
    by blast
  from a b show ?thesis by simp
qed

section \<open>Answered items\<close>

text \<open>
  A callback that reads the answered set of the current render never makes an
  answered item active.
\<close>
lemma pending_answered: "id_q q \<in> answered \<Longrightarrow> \<not> pending answered t q"
  by (simp add: pending_def)

lemma handleTimeUpdate_skips_answered:
  "activeQuestion st = None \<Longrightarrow> activeQuestion (handleTimeUpdate qs answered t st) = Some q \<Longrightarrow>
     id_q q \<notin> answered"
  by (cases "find (pending answered t) qs")
     (auto simp: handleTimeUpdate_def pending_def find_Some_iff)

text \<open>
  Claim C3 says that no tick sets the active question to an item whose id is in the
  answered set. The ticks of the player run the callback captured when the player was
  mounted, whose answered set is the one of that render. With one item at timestamp
  10: the tick at 10 makes it active, the learner submits option 2 and continues, the
  id is in the answered set and no question is active; the next tick at 10 makes the
  same item active again and requests the pause. The callback of the current render
  would have left the active question empty.
\<close>

theorem answered_item_retriggered:
  "''a'' \<in> answeredQuestionIds (app (overlayContinue (handleSubmit 2 emptyOverlay)
       (intervalTick 10 (mountPlayer (playingApp [mkQ ''a'' 10])))))
   \<and> activeQuestion (app (overlayContinue (handleSubmit 2 emptyOverlay)
       (intervalTick 10 (mountPlayer (playingApp [mkQ ''a'' 10]))))) = None
   \<and> activeQuestion (app (intervalTick 10 (overlayContinue (handleSubmit 2 emptyOverlay)
       (intervalTick 10 (mountPlayer (playingApp [mkQ ''a'' 10])))))) = Some (mkQ ''a'' 10)
   \<and> shouldPause (app (intervalTick 10 (overlayContinue (handleSubmit 2 emptyOverlay)
       (intervalTick 10 (mountPlayer (playingApp [mkQ ''a'' 10]))))))
   \<and> activeQuestion (handleTimeUpdate [mkQ ''a'' 10] {''a''} 10
       (app (overlayContinue (handleSubmit 2 emptyOverlay)
         (intervalTick 10 (mountPlayer (playingApp [mkQ ''a'' 10])))))) = None"
  by (simp add: intervalTick_def overlayContinue_def mountPlayer_def playingApp_def
        handleTimeUpdate_def pending_def mkQ_def initialApp_def continueClick_def
        handleContinue_def handleSubmit_def emptyOverlay_def handleQuestionComplete_def)

section \<open>The pause command\<close>

text \<open>
  Claim C5, as the claim states it, fails: with the player ready, two renders of
  \<^verbatim>\<open>App\<close> during one activation of the pause request issue the pause command twice.
\<close>

theorem pause_reissued_on_rerender:
  "activations False [True, True] = 1
   \<and> renders (appProps 1 [True, True]) readyPlayer =
       [PauseVideo, OnPaused, PauseVideo, OnPaused]"
  by (simp add: readyPlayer_def renderPlayer_def pauseEffect_def)

lemma renders_stable:
  "isReady p \<Longrightarrow> playerRef p \<Longrightarrow> lastDeps p = Some (prev, True, cb) \<Longrightarrow>
     renders (map (\<lambda>pause. (pause, cb)) ps) p =
       concat (replicate (activations prev ps) [PauseVideo, OnPaused])"
proof (induction ps arbitrary: p prev)
  case Nil
  then show ?case by simp
next
  case (Cons pause ps)
  let ?p' = "p\<lparr>lastDeps := Some (pause, True, cb)\<rparr>"
  have r: "renderPlayer pause cb p =
      (if pause \<and> \<not> prev then [PauseVideo, OnPaused] else [], ?p')"
    using Cons.prems by (auto simp: renderPlayer_def pauseEffect_def)
  have ih: "renders (map (\<lambda>pause. (pause, cb)) ps) ?p' =
       concat (replicate (activations pause ps) [PauseVideo, OnPaused])"
    using Cons.prems Cons.IH [of ?p' pause] by simp
  show ?case by (simp add: r ih)
qed

lemma renders_fresh:
  "isReady p \<Longrightarrow> playerRef p \<Longrightarrow> lastDeps p = Some (prev, True, k0) \<Longrightarrow> k0 < k \<Longrightarrow>
     renders (appProps k ps) p =
       concat (replicate (length (filter (\<lambda>pause. pause) ps)) [PauseVideo, OnPaused])"
proof (induction ps arbitrary: p prev k0 k)
  case Nil
  then show ?case by simp
next
  case (Cons pause ps)
  let ?p' = "p\<lparr>lastDeps := Some (pause, True, k)\<rparr>"
  have r: "renderPlayer pause k p = (if pause then [PauseVideo, OnPaused] else [], ?p')"
    using Cons.prems by (auto simp: renderPlayer_def pauseEffect_def)
  have ih: "renders (appProps (Suc k) ps) ?p' =
       concat (replicate (length (filter (\<lambda>pause. pause) ps)) [PauseVideo, OnPaused])"
    using Cons.prems Cons.IH [of ?p' pause k "Suc k"] by simp
  show ?case by (simp add: r ih)
qed

text \<open>
  Claim C5, amended. While the player is ready: when the \<^verbatim>\<open>onPaused\<close> callback handed
  to the player is the same function object in every render, each activation of the
  pause request (each change of \<^verbatim>\<open>shouldPause\<close> from false to true) makes the player
  issue the pause command once, followed by the paused signal, and no other render
  issues anything. With the callback \<^verbatim>\<open>App\<close> passes, a new function object in every
  render of \<^verbatim>\<open>App\<close>, the pause command and the signal are issued once in every render
  of \<^verbatim>\<open>App\<close> in which \<^verbatim>\<open>shouldPause\<close> is true.
\<close>

theorem pause_effect_per_render:
  "isReady p \<and> playerRef p \<and> lastDeps p = Some (prev, True, cb) \<longrightarrow>
     renders (map (\<lambda>pause. (pause, cb)) ps) p =
       concat (replicate (activations prev ps) [PauseVideo, OnPaused])
   \<and> (cb < k \<longrightarrow>
        renders (appProps k ps) p =
          concat (replicate (length (filter (\<lambda>pause. pause) ps)) [PauseVideo, OnPaused]))"
  using renders_stable [of p prev cb ps] renders_fresh [of p prev cb k ps] by blast

theorem pause_effect_per_render_witness:
  "renders (map (\<lambda>pause. (pause, 0)) [True, True, False, True]) readyPlayer =
     [PauseVideo, OnPaused, PauseVideo, OnPaused]
   \<and> renders (appProps 1 [True, True, False, True]) readyPlayer =
     [PauseVideo, OnPaused, PauseVideo, OnPaused, PauseVideo, OnPaused]"
proof -
  have h: "isReady readyPlayer \<and> playerRef readyPlayer
      \<and> lastDeps readyPlayer = Some (False, True, 0)"
    by (simp add: readyPlayer_def)
  from pause_effect_per_render [where p = readyPlayer and prev = False and cb = 0 and k = 1
      and ps = "[True, True, False, True]"] h
  show ?thesis by simp
qed

section \<open>Video identifier extraction\<close>

text \<open>
  Claim C4, as the claim states it, fails in both halves. The first URL has the shape
  \<^verbatim>\<open>watch?v=\<close> with the 11-character token and extraction fails, because \<^verbatim>\<open>v/\<close> stands
  later in the string. The second URL has none of the five shapes followed by an
  11-character token and extraction succeeds, through the alternative \<^verbatim>\<open>&v=\<close>.
\<close>

theorem getYouTubeId_counterexample:
  "''sSsTR8qqDl4'' \<in> set (claimedTokens ''https://www.youtube.com/watch?v=sSsTR8qqDl4&ref=example.com/tv/'')
   \<and> getYouTubeId ''https://www.youtube.com/watch?v=sSsTR8qqDl4&ref=example.com/tv/'' = None
   \<and> claimedTokens ''https://www.youtube.com/watch?app=desktop&v=sSsTR8qqDl4'' = []
   \<and> getYouTubeId ''https://www.youtube.com/watch?app=desktop&v=sSsTR8qqDl4'' = Some ''sSsTR8qqDl4''"
  by code_simp

lemma matchFrom_None_iff:
  "matchFrom url = None \<longleftrightarrow>
     (\<forall>pre s. url = pre @ s \<and> (\<forall>c \<in> set pre. \<not> lineTerminator c) \<longrightarrow> groups s = None)"
proof (induction url)
  case Nil
  then show ?case by simp
next
  case (Cons c cs)
  have dec: "(\<forall>pre s. c # cs = pre @ s \<and> (\<forall>c \<in> set pre. \<not> lineTerminator c) \<longrightarrow> groups s = None)
      \<longleftrightarrow> groups (c # cs) = None
          \<and> (\<not> lineTerminator c \<longrightarrow>
               (\<forall>pre s. cs = pre @ s \<and> (\<forall>c \<in> set pre. \<not> lineTerminator c) \<longrightarrow> groups s = None))"
    (is "?L \<longleftrightarrow> ?R")
  proof
    assume l: ?L
    have "groups (c # cs) = None"
      using l [rule_format, of "[]" "c # cs"] by simp
    moreover have "groups s = None"
      if "\<not> lineTerminator c" "cs = pre @ s" "\<forall>c \<in> set pre. \<not> lineTerminator c" for pre s
      using l [rule_format, of "c # pre" s] that by simp
    ultimately show ?R by blast
  next
    assume r: ?R
    show ?L
    proof (intro allI impI)
      fix pre s
      assume h: "c # cs = pre @ s \<and> (\<forall>c \<in> set pre. \<not> lineTerminator c)"
      show "groups s = None"
      proof (cases pre)
        case Nil
        with h r show ?thesis by simp
      next
        case (Cons a p)
        with h have "cs = p @ s" "\<not> lineTerminator c" "\<forall>c \<in> set p. \<not> lineTerminator c"
          by simp_all
        with r show ?thesis by blast
      qed
    qed
  qed
  have "matchFrom (c # cs) = None \<longleftrightarrow>
      groups (c # cs) = None \<and> (\<not> lineTerminator c \<longrightarrow> matchFrom cs = None)"
    by (simp split: option.splits)
  with Cons.IH dec show ?case by simp
qed

lemma matchFrom_last:
  assumes "url = pre @ s" "\<forall>c \<in> set pre. \<not> lineTerminator c" "groups s = Some g"
    and "\<forall>pre' s'. url = pre' @ s' \<and> length pre < length pre'
           \<and> (\<forall>c \<in> set pre'. \<not> lineTerminator c) \<longrightarrow> groups s' = None"
  shows "matchFrom url = Some g"
  using assms
proof (induction pre arbitrary: url)
  case Nil
  show ?case
  proof (cases s)
    case Nil
    with Nil.prems show ?thesis by simp
  next
    case (Cons c cs)
    show ?thesis
    proof (cases "lineTerminator c")
      case True
      with Cons Nil.prems show ?thesis by simp
    next
      case False
      have "matchFrom cs = None"
        unfolding matchFrom_None_iff
      proof (intro allI impI)
        fix p s'
        assume h: "cs = p @ s' \<and> (\<forall>c \<in> set p. \<not> lineTerminator c)"
        then have "url = (c # p) @ s'" "length [] < length (c # p)"
          "\<forall>x \<in> set (c # p). \<not> lineTerminator x"
          using Cons Nil.prems(1) False by simp_all
        with Nil.prems(4) show "groups s' = None" by blast
      qed
      with Cons Nil.prems False show ?thesis by simp
    qed
  qed
next
  case (Cons c pre)
  have nt: "\<not> lineTerminator c" using Cons.prems(2) by simp
  have cl: "\<forall>c \<in> set pre. \<not> lineTerminator c" using Cons.prems(2) by simp
  have "matchFrom (pre @ s) = Some g"
  proof (rule Cons.IH [OF refl cl Cons.prems(3)])
    show "\<forall>pre' s'. pre @ s = pre' @ s' \<and> length pre < length pre'
           \<and> (\<forall>c \<in> set pre'. \<not> lineTerminator c) \<longrightarrow> groups s' = None"
    proof (intro allI impI)
      fix p s'
      assume h: "pre @ s = p @ s' \<and> length pre < length p \<and> (\<forall>c \<in> set p. \<not> lineTerminator c)"
      then have "url = (c # p) @ s'" "length (c # pre) < length (c # p)"
        "\<forall>x \<in> set (c # p). \<not> lineTerminator x"
        using Cons.prems(1) nt by simp_all
      with Cons.prems(4) show "groups s' = None" by blast
    qed
  qed
  with Cons.prems(1) nt show ?case by simp
qed

lemma matchFrom_Some_ex:
  "matchFrom url = Some g \<Longrightarrow>
     \<exists>pre s. url = pre @ s \<and> (\<forall>c \<in> set pre. \<not> lineTerminator c) \<and> groups s = Some g
       \<and> (\<forall>pre' s'. url = pre' @ s' \<and> length pre < length pre'
             \<and> (\<forall>c \<in> set pre'. \<not> lineTerminator c) \<longrightarrow> groups s' = None)"
proof (induction url)
  case Nil
  then show ?case by simp
next
  case (Cons c cs)
  have here: ?case if g: "groups (c # cs) = Some g"
    and later: "lineTerminator c \<or> matchFrom cs = None"
  proof (rule exI [of _ "[]"], rule exI [of _ "c # cs"], intro conjI allI impI)
    show "c # cs = [] @ c # cs" by simp
    show "\<forall>c \<in> set []. \<not> lineTerminator c" by simp
    show "groups (c # cs) = Some g" by (rule g)
    fix p s'
    assume h: "c # cs = p @ s' \<and> length [] < length p \<and> (\<forall>c \<in> set p. \<not> lineTerminator c)"
    then obtain p' where p': "p = c # p'" "cs = p' @ s'"
      by (cases p) auto
    with h have nt: "\<not> lineTerminator c" "\<forall>c \<in> set p'. \<not> lineTerminator c" by simp_all
    with later have "matchFrom cs = None" by simp
    with p'(2) nt(2) show "groups s' = None"
      unfolding matchFrom_None_iff by blast
  qed
  show ?case
  proof (cases "lineTerminator c")
    case True
    with Cons.prems here show ?thesis by simp
  next
    case False
    show ?thesis
    proof (cases "matchFrom cs")
      case None
      with False Cons.prems here show ?thesis by simp
    next
      case (Some g')
      with False Cons.prems have gg: "g' = g" by simp
      from Cons.IH Some gg obtain pre s where ps: "cs = pre @ s"
        "\<forall>c \<in> set pre. \<not> lineTerminator c" "groups s = Some g"
        "\<forall>pre' s'. cs = pre' @ s' \<and> length pre < length pre'
             \<and> (\<forall>c \<in> set pre'. \<not> lineTerminator c) \<longrightarrow> groups s' = None"
        by blast
      show ?thesis
      proof (rule exI [of _ "c # pre"], rule exI [of _ s], intro conjI allI impI)
        show "c # cs = (c # pre) @ s" using ps(1) by simp
        show "\<forall>x \<in> set (c # pre). \<not> lineTerminator x" using ps(2) False by simp
        show "groups s = Some g" by (rule ps(3))
        fix p s'
        assume h: "c # cs = p @ s' \<and> length (c # pre) < length p
            \<and> (\<forall>c \<in> set p. \<not> lineTerminator c)"
        then obtain p' where p': "p = c # p'" "cs = p' @ s'"
          by (cases p) auto
        with h have "length pre < length p'" "\<forall>c \<in> set p'. \<not> lineTerminator c"
          by simp_all
        with ps(4) p'(2) show "groups s' = None" by blast
      qed
    qed
  qed
qed

lemma matchSeq_suffix:
  "matchSeq m s = Some r \<Longrightarrow> \<exists>mk. s = mk @ r \<and> length mk = length m"
proof (induction m s rule: matchSeq.induct)
  case (1 s)
  then show ?case by simp
next
  case (2 a as)
  then show ?case by simp
next
  case (3 a as c cs)
  then obtain mk where "cs = mk @ r" "length mk = length as"
    by (auto split: if_splits)
  then have "c # cs = (c # mk) @ r \<and> length (c # mk) = length (a # as)" by simp
  then show ?case by blast
qed

lemma matchAlt_suffix: "matchAlt ms s = Some r \<Longrightarrow> \<exists>mk. s = mk @ r"
  by (induction ms) (auto split: option.splits dest: matchSeq_suffix)

lemma group2_append:
  "\<forall>c \<in> set tok. c \<notin> set ''#&?'' \<Longrightarrow> rest = [] \<or> hd rest \<in> set ''#&?'' \<Longrightarrow>
     group2 (tok @ rest) = tok"
  unfolding group2_def by (cases rest) (simp_all add: takeWhile_append2 del: set_simps)

lemma group2_split:
  "\<exists>rest. r = group2 r @ rest \<and> (\<forall>c \<in> set (group2 r). c \<notin> set ''#&?'')
     \<and> (rest = [] \<or> hd rest \<in> set ''#&?'')"
proof (rule exI [of _ "dropWhile (\<lambda>c. c \<notin> set ''#&?'') r"], intro conjI)
  show "r = group2 r @ dropWhile (\<lambda>c. c \<notin> set ''#&?'') r"
    by (simp add: group2_def del: set_simps)
  show "\<forall>c \<in> set (group2 r). c \<notin> set ''#&?''"
    unfolding group2_def using set_takeWhileD by fastforce
  show "dropWhile (\<lambda>c. c \<notin> set ''#&?'') r = []
      \<or> hd (dropWhile (\<lambda>c. c \<notin> set ''#&?'') r) \<in> set ''#&?''"
    using hd_dropWhile [of "\<lambda>c. c \<notin> set ''#&?''" r] by blast
qed

lemma groups_iff:
  "groups s = Some tok \<longleftrightarrow>
     (\<exists>mk rest. s = mk @ tok @ rest
        \<and> matchAlt alternatives (mk @ tok @ rest) = Some (tok @ rest)
        \<and> (\<forall>c \<in> set tok. c \<notin> set ''#&?'') \<and> (rest = [] \<or> hd rest \<in> set ''#&?''))"
proof
  assume "groups s = Some tok"
  then obtain r where r: "matchAlt alternatives s = Some r" "group2 r = tok"
    by (auto simp: groups_def)
  from matchAlt_suffix [OF r(1)] obtain mk where mk: "s = mk @ r" by blast
  from group2_split [of r] r(2) obtain rest where rest: "r = tok @ rest"
    "\<forall>c \<in> set tok. c \<notin> set ''#&?''" "rest = [] \<or> hd rest \<in> set ''#&?''"
    by blast
  from r(1) mk rest show "\<exists>mk rest. s = mk @ tok @ rest
        \<and> matchAlt alternatives (mk @ tok @ rest) = Some (tok @ rest)
        \<and> (\<forall>c \<in> set tok. c \<notin> set ''#&?'') \<and> (rest = [] \<or> hd rest \<in> set ''#&?'')"
    by blast
next
  assume "\<exists>mk rest. s = mk @ tok @ rest
        \<and> matchAlt alternatives (mk @ tok @ rest) = Some (tok @ rest)
        \<and> (\<forall>c \<in> set tok. c \<notin> set ''#&?'') \<and> (rest = [] \<or> hd rest \<in> set ''#&?'')"
  then obtain mk rest where h: "s = mk @ tok @ rest"
    "matchAlt alternatives (mk @ tok @ rest) = Some (tok @ rest)"
    "\<forall>c \<in> set tok. c \<notin> set ''#&?''" "rest = [] \<or> hd rest \<in> set ''#&?''"
    by blast
  from group2_append [OF h(3,4)] h(1,2) show "groups s = Some tok"
    by (simp add: groups_def)
qed

lemma groups_None_iff: "groups s = None \<longleftrightarrow> matchAlt alternatives s = None"
  by (simp add: groups_def)

lemma getYouTubeId_iff:
  "getYouTubeId url = Some tok \<longleftrightarrow>
      (\<exists>pre mk rest. url = pre @ mk @ tok @ rest
         \<and> (\<forall>c \<in> set pre. \<not> lineTerminator c)
         \<and> matchAlt alternatives (mk @ tok @ rest) = Some (tok @ rest)
         \<and> length tok = 11 \<and> (\<forall>c \<in> set tok. c \<notin> set ''#&?'')
         \<and> (rest = [] \<or> hd rest \<in> set ''#&?'')
         \<and> (\<forall>pre' s'. url = pre' @ s' \<and> length pre < length pre'
               \<and> (\<forall>c \<in> set pre'. \<not> lineTerminator c) \<longrightarrow> matchAlt alternatives s' = None))"
  (is "?L \<longleftrightarrow> ?R")
proof
  assume ?L
  then have m: "matchFrom url = Some tok" and len: "length tok = 11"
    by (auto simp: getYouTubeId_def split: option.splits if_splits)
  from matchFrom_Some_ex [OF m] obtain pre s where ps: "url = pre @ s"
    "\<forall>c \<in> set pre. \<not> lineTerminator c" "groups s = Some tok"
    "\<forall>pre' s'. url = pre' @ s' \<and> length pre < length pre'
         \<and> (\<forall>c \<in> set pre'. \<not> lineTerminator c) \<longrightarrow> groups s' = None"
    by blast
  from ps(3) obtain mk rest where mr: "s = mk @ tok @ rest"
    "matchAlt alternatives (mk @ tok @ rest) = Some (tok @ rest)"
    "\<forall>c \<in> set tok. c \<notin> set ''#&?''" "rest = [] \<or> hd rest \<in> set ''#&?''"
    unfolding groups_iff by blast
  from ps(4) have later: "\<forall>pre' s'. url = pre' @ s' \<and> length pre < length pre'
         \<and> (\<forall>c \<in> set pre'. \<not> lineTerminator c) \<longrightarrow> matchAlt alternatives s' = None"
    by (simp add: groups_None_iff)
  from ps(1,2) mr len later show ?R by blast
next
  assume ?R
  then obtain pre mk rest where h: "url = pre @ mk @ tok @ rest"
    "\<forall>c \<in> set pre. \<not> lineTerminator c"
    "matchAlt alternatives (mk @ tok @ rest) = Some (tok @ rest)"
    "length tok = 11" "\<forall>c \<in> set tok. c \<notin> set ''#&?''"
    "rest = [] \<or> hd rest \<in> set ''#&?''"
    "\<forall>pre' s'. url = pre' @ s' \<and> length pre < length pre'
         \<and> (\<forall>c \<in> set pre'. \<not> lineTerminator c) \<longrightarrow> matchAlt alternatives s' = None"
    by blast
  have g: "groups (mk @ tok @ rest) = Some tok"
    unfolding groups_iff using h(3,5,6) by blast
  have later: "\<forall>pre' s'. url = pre' @ s' \<and> length pre < length pre'
         \<and> (\<forall>c \<in> set pre'. \<not> lineTerminator c) \<longrightarrow> groups s' = None"
    using h(7) by (simp add: groups_None_iff)
  from matchFrom_last [OF h(1,2) g later] h(4) show ?L
    by (simp add: getYouTubeId_def)
qed

lemma matchSeq_lits:
  "matchSeq (map Lit a @ ms) s = Some r \<longleftrightarrow> (\<exists>s'. s = a @ s' \<and> matchSeq ms s' = Some r)"
proof (induction a arbitrary: s)
  case Nil
  then show ?case by simp
next
  case (Cons x a)
  then show ?case by (cases s) auto
qed

lemma matchSeq_lits_only: "matchSeq (map Lit a) s = Some r \<longleftrightarrow> s = a @ r"
  using matchSeq_lits [of a "[]" s r] by auto

lemma matchSeq_one:
  "matchSeq (x # ms) s = Some r \<longleftrightarrow> (\<exists>c s'. s = c # s' \<and> matchAtom x c \<and> matchSeq ms s' = Some r)"
  by (cases s) auto

lemma matchSeq_youtu_be: "matchSeq (map Lit ''youtu'' @ [Dot] @ map Lit ''be/'') s = Some r \<longleftrightarrow>
      (\<exists>c. \<not> lineTerminator c \<and> s = ''youtu'' @ c # ''be/'' @ r)"
proof -
  have "matchSeq (map Lit ''youtu'' @ [Dot] @ map Lit ''be/'') s = Some r \<longleftrightarrow>
     (\<exists>s'. s = ''youtu'' @ s' \<and> matchSeq (Dot # map Lit ''be/'') s' = Some r)"
    using matchSeq_lits [of "''youtu''" "Dot # map Lit ''be/''" s r] by simp
  also have "\<dots> \<longleftrightarrow> (\<exists>s' c s''. s = ''youtu'' @ s' \<and> s' = c # s'' \<and> \<not> lineTerminator c
       \<and> s'' = ''be/'' @ r)"
    unfolding matchSeq_one matchSeq_lits_only by simp
  also have "\<dots> \<longleftrightarrow> (\<exists>c. \<not> lineTerminator c \<and> s = ''youtu'' @ c # ''be/'' @ r)"
    by blast
  finally show ?thesis .
qed

lemma matchSeq_u_word: "matchSeq [Lit CHR ''u'', Lit CHR ''/'', Word, Lit CHR ''/''] s = Some r \<longleftrightarrow>
      (\<exists>w. wordChar w \<and> s = ''u/'' @ w # ''/'' @ r)"
proof -
  have "matchSeq [Lit CHR ''u'', Lit CHR ''/'', Word, Lit CHR ''/''] s = Some r \<longleftrightarrow>
     (\<exists>s'. s = ''u/'' @ s' \<and> matchSeq (Word # map Lit ''/'') s' = Some r)"
    using matchSeq_lits [of "''u/''" "Word # map Lit ''/''" s r] by simp
  also have "\<dots> \<longleftrightarrow> (\<exists>s' w s''. s = ''u/'' @ s' \<and> s' = w # s'' \<and> wordChar w
       \<and> s'' = ''/'' @ r)"
    unfolding matchSeq_one matchSeq_lits_only by simp
  also have "\<dots> \<longleftrightarrow> (\<exists>w. wordChar w \<and> s = ''u/'' @ w # ''/'' @ r)"
    by blast
  finally show ?thesis .
qed

lemma matchAlt_Cons_iff:
  "matchAlt (m # ms) s = Some r \<longleftrightarrow>
      matchSeq m s = Some r \<or> (\<forall>r'. matchSeq m s \<noteq> Some r') \<and> matchAlt ms s = Some r"
  by (cases "matchSeq m s") auto

lemma alternatives_shapes:
  "matchAlt alternatives s = Some r \<longleftrightarrow>
     (\<exists>c. \<not> lineTerminator c \<and> s = ''youtu'' @ c # ''be/'' @ r)
   \<or> s = ''v/'' @ r
   \<or> (\<exists>w. wordChar w \<and> s = ''u/'' @ w # ''/'' @ r)
   \<or> s = ''embed/'' @ r
   \<or> s = ''watch?v='' @ r
   \<or> s = ''&v='' @ r"
  (is "?L \<longleftrightarrow> ?P1 r \<or> ?P2 r \<or> ?P3 r \<or> ?P4 r \<or> ?P5 r \<or> ?P6 r")
proof -
  have nested: "?L \<longleftrightarrow>
      ?P1 r \<or> (\<forall>r'. \<not> ?P1 r') \<and>
     (?P2 r \<or> (\<forall>r'. \<not> ?P2 r') \<and>
     (?P3 r \<or> (\<forall>r'. \<not> ?P3 r') \<and>
     (?P4 r \<or> (\<forall>r'. \<not> ?P4 r') \<and>
     (?P5 r \<or> (\<forall>r'. \<not> ?P5 r') \<and> ?P6 r))))"
    unfolding alternatives_def matchAlt_Cons_iff matchSeq_youtu_be matchSeq_u_word matchSeq_lits_only matchAlt.simps(1)
    by simp
  have f1: "hd s = CHR ''y''" if "?P1 r'" for r' using that by auto
  have f2: "hd s = CHR ''v''" if "?P2 r'" for r' using that by auto
  have f3: "hd s = CHR ''u''" if "?P3 r'" for r' using that by auto
  have f4: "hd s = CHR ''e''" if "?P4 r'" for r' using that by auto
  have f5: "hd s = CHR ''w''" if "?P5 r'" for r' using that by auto
  have f6: "hd s = CHR ''&''" if "?P6 r'" for r' using that by auto
  have n2: "\<forall>r'. \<not> ?P1 r'" if "?P2 r" using f1 f2 [OF that] by auto
  have n3: "(\<forall>r'. \<not> ?P1 r') \<and> (\<forall>r'. \<not> ?P2 r')" if "?P3 r"
    using f1 f2 f3 [OF that] by auto
  have n4: "(\<forall>r'. \<not> ?P1 r') \<and> (\<forall>r'. \<not> ?P2 r') \<and> (\<forall>r'. \<not> ?P3 r')" if "?P4 r"
    using f1 f2 f3 f4 [OF that] by auto
  have n5: "(\<forall>r'. \<not> ?P1 r') \<and> (\<forall>r'. \<not> ?P2 r') \<and> (\<forall>r'. \<not> ?P3 r')
      \<and> (\<forall>r'. \<not> ?P4 r')" if "?P5 r"
    using f1 f2 f3 f4 f5 [OF that] by auto
  have n6: "(\<forall>r'. \<not> ?P1 r') \<and> (\<forall>r'. \<not> ?P2 r') \<and> (\<forall>r'. \<not> ?P3 r')
      \<and> (\<forall>r'. \<not> ?P4 r') \<and> (\<forall>r'. \<not> ?P5 r')" if "?P6 r"
    using f1 f2 f3 f4 f5 f6 [OF that] by auto
  show ?thesis
    unfolding nested using n2 n3 n4 n5 n6 by blast
qed

lemma drop_in_suffixesOf: "drop k xs \<in> set (suffixesOf xs)"
proof (cases "k \<le> length xs")
  case True
  then have "k \<in> set [0..<Suc (length xs)]" by auto
  then show ?thesis unfolding suffixesOf_def by (simp only: set_map image_eqI)
next
  case False
  then have "drop k xs = drop (length xs) xs" by simp
  moreover have "length xs \<in> set [0..<Suc (length xs)]" by simp
  ultimately show ?thesis unfolding suffixesOf_def by (simp only: set_map image_eqI)
qed

lemma later_suffix_in_suffixesOf:
  assumes "url = pre @ s" "n < length pre"
  shows "s \<in> set (suffixesOf (drop (Suc n) url))"
proof -
  have e: "length pre - Suc n + Suc n = length pre" using assms(2) by arith
  have "drop (length pre - Suc n) (drop (Suc n) url) = drop (length pre) url"
    by (simp only: drop_drop e)
  also have "\<dots> = s" using assms(1) by simp
  finally have "s = drop (length pre - Suc n) (drop (Suc n) url)" by (rule sym)
  then show ?thesis using drop_in_suffixesOf [of "length pre - Suc n" "drop (Suc n) url"]
    by (simp only:)
qed

text \<open>
  Claim C4, amended. Extraction returns \<open>tok\<close> exactly when the string reads
  \<open>pre @ mk @ tok @ rest\<close> where \<open>pre\<close> has no line terminator, \<open>mk\<close> is matched by one
  of the six alternatives of the pattern (the five shapes listed, the dot of
  \<^verbatim>\<open>youtu.be/\<close> standing for any character, and \<^verbatim>\<open>&v=\<close>), \<open>tok\<close> has 11 characters
  none of which is \<^verbatim>\<open>#\<close>, \<^verbatim>\<open>&\<close> or \<^verbatim>\<open>?\<close>, \<open>rest\<close> is empty or starts with one of
  these three, and no alternative matches at a later position of the first line. In
  every other case extraction fails; \<^verbatim>\<open>handleGenerate\<close> then sets the error
  "Please enter a valid YouTube URL", changes nothing else and sends no prompt.
\<close>

theorem getYouTubeId_last_marker:
  "(getYouTubeId url = Some tok \<longleftrightarrow>
      (\<exists>pre mk rest. url = pre @ mk @ tok @ rest
         \<and> (\<forall>c \<in> set pre. \<not> lineTerminator c)
         \<and> matchAlt alternatives (mk @ tok @ rest) = Some (tok @ rest)
         \<and> length tok = 11 \<and> (\<forall>c \<in> set tok. c \<notin> set ''#&?'')
         \<and> (rest = [] \<or> hd rest \<in> set ''#&?'')
         \<and> (\<forall>pre' s'. url = pre' @ s' \<and> length pre < length pre'
               \<and> (\<forall>c \<in> set pre'. \<not> lineTerminator c) \<longrightarrow> matchAlt alternatives s' = None)))
   \<and> (getYouTubeId (videoUrl st) = None \<longrightarrow>
        handleGenerate env st = (st\<lparr>error := Some ''Please enter a valid YouTube URL''\<rparr>, []))"
  using getYouTubeId_iff [of url tok] by (simp add: handleGenerate_def)

theorem getYouTubeId_last_marker_witness:
  "getYouTubeId ''https://youtu.be/sSsTR8qqDl4?t=3'' = Some ''sSsTR8qqDl4''
   \<and> handleGenerate sampleEnv (initialApp\<lparr>videoUrl := ''https://example.com/video''\<rparr>) =
       (initialApp\<lparr>videoUrl := ''https://example.com/video'',
          error := Some ''Please enter a valid YouTube URL''\<rparr>, [])"
proof -
  let ?url = "''https://youtu.be/sSsTR8qqDl4?t=3''"
  let ?st = "initialApp\<lparr>videoUrl := ''https://example.com/video''\<rparr>"
  have dec: "?url = ''https://'' @ ''youtu.be/'' @ ''sSsTR8qqDl4'' @ ''?t=3''"
    by simp
  have cl: "\<forall>c \<in> set ''https://''. \<not> lineTerminator c"
    by (simp add: lineTerminator_def)
  have mk: "matchAlt alternatives (''youtu.be/'' @ ''sSsTR8qqDl4'' @ ''?t=3'') =
      Some (''sSsTR8qqDl4'' @ ''?t=3'')"
    by (simp add: alternatives_def lineTerminator_def)
  have tok: "length ''sSsTR8qqDl4'' = 11" "\<forall>c \<in> set ''sSsTR8qqDl4''. c \<notin> set ''#&?''"
    "''?t=3'' = [] \<or> hd ''?t=3'' \<in> set ''#&?''"
    by simp_all
  have all: "\<forall>s \<in> set (suffixesOf (drop (Suc (length ''https://'')) ?url)).
      matchAlt alternatives s = None"
    by code_simp
  have later: "\<forall>pre' s'. ?url = pre' @ s' \<and> length ''https://'' < length pre'
      \<and> (\<forall>c \<in> set pre'. \<not> lineTerminator c) \<longrightarrow> matchAlt alternatives s' = None"
    using all later_suffix_in_suffixesOf [of ?url _ _ "length ''https://''"] by blast
  have a: "getYouTubeId ?url = Some ''sSsTR8qqDl4''"
    using getYouTubeId_last_marker [of ?url "''sSsTR8qqDl4''"] dec cl mk tok later
    by blast
  have inv: "getYouTubeId (videoUrl ?st) = None"
    unfolding initialApp_def by code_simp
  have b: "handleGenerate sampleEnv ?st =
      (?st\<lparr>error := Some ''Please enter a valid YouTube URL''\<rparr>, [])"
    using getYouTubeId_last_marker [of _ _ ?st sampleEnv] inv by blast
  from a b show ?thesis by simp
qed

end
